theory Spec2Isabelle
  imports Complex_Main "HOL-Library.Log_Nat"
begin

section \<open>The benchmark harness of \<^verbatim>\<open>benchmark.js\<close>\<close>

text \<open>
  The source is one script: \<^verbatim>\<open>makeRequest\<close> issues one timed HTTP GET and wraps it
  in a promise, \<^verbatim>\<open>benchmarkRoute\<close> runs a sequential warmup, then the measured requests
  in batches joined by \<^verbatim>\<open>Promise.all\<close>, then computes the latency statistics, and
  \<^verbatim>\<open>runBenchmarks\<close> runs six scenarios inside \<^verbatim>\<open>try/catch/finally\<close> around a server.

  The network, the clock and the server are the environment. They are modelled as
  explicit oracles; everything the script itself does is a function of them. Time
  passes only while the script waits: \<^verbatim>\<open>performance.now()\<close> advances by the time a
  request takes when it is awaited alone, and by the longest time of a batch when the
  batch is awaited. The module-level \<^verbatim>\<open>results\<close> object of lines 24 to 31 is never
  read or written and has no counterpart here.
\<close>

subsection \<open>JavaScript values\<close>

text \<open>
  The values that reach the statistics: a finite number (every finite double is a
  rational), the two infinities and \<^verbatim>\<open>NaN\<close>, and \<^verbatim>\<open>undefined\<close>, which is what
  an array read outside \<open>0 .. length - 1\<close> evaluates to.
\<close>

datatype jsval = Num rat | Infinity | NegInfinity | NaN | Undefined

text \<open>
  What a pending request is rejected with: the \<^verbatim>\<open>'error'\<close> event's error object, or the
  \<^verbatim>\<open>Error('Request timeout')\<close> of the timeout callback. What is thrown: one of those
  (by an \<^verbatim>\<open>await\<close> of a rejected promise) or a \<^verbatim>\<open>TypeError\<close>.
\<close>

datatype rejection = TransportError | RequestTimeout

datatype js_error = TypeError | Rejection rejection

text \<open>
  \<^verbatim>\<open>a / b\<close> on finite numbers. Division by zero does not raise in JavaScript: it is
  \<^verbatim>\<open>NaN\<close> for \<open>0 / 0\<close> and an infinity otherwise. The rounding of the quotient to a
  double is not modelled.
\<close>

definition js_div :: "rat \<Rightarrow> rat \<Rightarrow> jsval" where
  "js_div a b =
     (if b = 0 then (if a = 0 then NaN else if 0 < a then Infinity else NegInfinity)
      else Num (a / b))"

text \<open>\<^verbatim>\<open>v * k\<close> for a finite positive constant \<open>k\<close>.\<close>

definition js_times :: "jsval \<Rightarrow> rat \<Rightarrow> jsval" where
  "js_times v k = (case v of Num a \<Rightarrow> Num (a * k) | other \<Rightarrow> other)"

text \<open>
  \<^verbatim>\<open>xs[i]\<close>: the element when \<open>0 \<le> i < xs.length\<close>, \<^verbatim>\<open>undefined\<close> otherwise
  (also for \<open>i = -1\<close>, which is what \<^verbatim>\<open>times[times.length - 1]\<close> reads on an empty
  array).
\<close>

definition js_index :: "rat list \<Rightarrow> int \<Rightarrow> jsval" where
  "js_index xs i = (if 0 \<le> i \<and> i < int (length xs) then Num (xs ! nat i) else Undefined)"

text \<open>
  \<^verbatim>\<open>v.toFixed(2)\<close>: a method call on \<^verbatim>\<open>undefined\<close> throws a \<^verbatim>\<open>TypeError\<close>; on
  every number, \<^verbatim>\<open>NaN\<close> and the infinities included, it returns a string. The
  digits of the string are not modelled: the value itself stands for its rendering.
\<close>

definition toFixed :: "jsval \<Rightarrow> js_error + jsval" where
  "toFixed v = (if v = Undefined then Inl TypeError else Inr v)"

subsection \<open>Double-precision products \<^verbatim>\<open>times.length * p\<close>\<close>

text \<open>
  The percentile indices are \<^verbatim>\<open>Math.floor(times.length * 0.5)\<close>, \<^verbatim>\<open>* 0.95\<close> and
  \<^verbatim>\<open>* 0.99\<close>. The literals are doubles: \<open>0.5 = 2^52 / 2^53\<close> exactly, while \<open>0.95\<close>
  and \<open>0.99\<close> are the nearest doubles \<open>8556839292003942 / 2^53\<close> and
  \<open>8917127262193582 / 2^53\<close>, both slightly below the decimal fractions. The product
  of the integer \<open>n\<close> and the double \<open>m / 2^53\<close> is the exact product \<open>n * m / 2^53\<close>
  rounded to 53 significant bits, ties to even.
\<close>

definition half_m :: int where "half_m = 4503599627370496"
definition p95_m :: int where "p95_m = 8556839292003942"
definition p99_m :: int where "p99_m = 8917127262193582"

text \<open>Rounding a positive integer to 53 significant bits, ties to even; \<open>bitlen\<close> is the
  number of bits of its argument.\<close>

definition round53 :: "int \<Rightarrow> int" where
  "round53 P =
     (let L = bitlen P in
      if L \<le> 53 then P
      else
        let s = nat (L - 53); q = P div 2 ^ s; r = P mod 2 ^ s; h = 2 ^ (s - 1) in
        if h < r \<or> (r = h \<and> odd q) then (q + 1) * 2 ^ s else q * 2 ^ s)"

text \<open>\<^verbatim>\<open>Math.floor(n * c)\<close> for the double \<open>c = m / 2^53\<close>.\<close>

definition floor_mul :: "nat \<Rightarrow> int \<Rightarrow> int" where
  "floor_mul n m = round53 (int n * m) div 2 ^ 53"

subsection \<open>The statistics of lines 156 to 162\<close>

record latency_stats =
  avg :: jsval
  min_t :: jsval
  max_t :: jsval
  p50 :: jsval
  p95 :: jsval
  p99 :: jsval

text \<open>
  \<^verbatim>\<open>times.sort((a, b) => a - b)\<close> sorts numerically ascending; \<^verbatim>\<open>reduce\<close> sums from
  \<open>0\<close>. The sum and the mean are exact here, where the source rounds each addition to a
  double.
\<close>

definition calculate_statistics :: "rat list \<Rightarrow> latency_stats" where
  "calculate_statistics ts =
     (let tms = sort ts; n = length tms in
      \<lparr> avg = js_div (sum_list tms) (of_nat n),
        min_t = js_index tms 0,
        max_t = js_index tms (int n - 1),
        p50 = js_index tms (floor_mul n half_m),
        p95 = js_index tms (floor_mul n p95_m),
        p99 = js_index tms (floor_mul n p99_m) \<rparr>)"

subsection \<open>Promises and \<^verbatim>\<open>makeRequest\<close> (lines 79 to 106)\<close>

text \<open>
  A promise settles once: \<^verbatim>\<open>resolve\<close> and \<^verbatim>\<open>reject\<close> on a promise that is no longer
  pending do nothing.
\<close>

datatype 'a promise = Pending | Fulfilled 'a | Rejected rejection

definition resolve :: "'a \<Rightarrow> 'a promise \<Rightarrow> 'a promise" where
  "resolve v p = (case p of Pending \<Rightarrow> Fulfilled v | settled \<Rightarrow> settled)"

definition reject :: "rejection \<Rightarrow> 'a promise \<Rightarrow> 'a promise" where
  "reject e p = (case p of Pending \<Rightarrow> Rejected e | settled \<Rightarrow> settled)"

text \<open>
  The three callbacks \<^verbatim>\<open>makeRequest\<close> registers: the response's \<^verbatim>\<open>'end'\<close> (with the
  status code of the response), the request's \<^verbatim>\<open>'error'\<close>, and the socket timeout.
  What the network does with one request is the list of callbacks that fire, in the
  order they fire, and the time from \<^verbatim>\<open>start\<close> to the first of them. An empty list
  is a request on which none of the three ever fires.
\<close>

datatype callback = ResponseEnd int | RequestError | SocketTimeout

record exchange =
  elapsed :: rat
  callbacks :: "callback list"

text \<open>The network answers the \<open>k\<close>-th request of the run, sent to a port and a path.\<close>

type_synonym network = "nat \<Rightarrow> string \<Rightarrow> nat \<Rightarrow> exchange"

record reply =
  time :: rat
  statusCode :: int

text \<open>
  Line 93 resolves with \<^verbatim>\<open>{time: end - start, statusCode}\<close>, line 98 rejects with the
  error, lines 102 and 103 destroy the request and reject. The latency \<open>end - start\<close>
  of a response that settles the promise is the time to that callback.
\<close>

fun fire :: "rat \<Rightarrow> reply promise \<Rightarrow> callback \<Rightarrow> reply promise" where
  "fire t p (ResponseEnd sc) = resolve \<lparr>time = t, statusCode = sc\<rparr> p"
| "fire t p RequestError = reject TransportError p"
| "fire t p SocketTimeout = reject RequestTimeout p"

definition makeRequest :: "network \<Rightarrow> nat \<Rightarrow> string \<Rightarrow> nat \<Rightarrow> reply promise" where
  "makeRequest net port path k =
     (let x = net port path k in foldl (fire (elapsed x)) Pending (callbacks x))"

subsection \<open>The state of a run\<close>

text \<open>
  The dispatcher is instrumented: every call of \<^verbatim>\<open>makeRequest\<close> appends an \<open>Issue\<close>
  event, tagged with the loop it is called from and the number of the request, and
  every settlement appends a \<open>Settle\<close> event with that number.
\<close>

datatype phase = Warmup | Batch nat

datatype event = Issue phase nat | Settle nat

datatype line =
    Rule
  | Title
  | ConfigHeader
  | ConfigLine string nat
  | ListeningLine nat
  | BenchmarkingLine string
  | WarmupLine nat
  | RunningLine nat
  | CompletedLine nat rat
  | ReqPerSecLine jsval
  | LatencyLine jsval jsval jsval
  | PercentilesLine jsval jsval jsval
  | ErrorsLine nat
  | SummaryTitle
  | SummaryHeader
  | SummaryRow string jsval jsval
  | ImpactNotes
  | BenchmarkError js_error
  | CompleteLine
  | FatalError js_error

datatype server_state = NotStarted | Listening nat | BindFailed | Closed

record world =
  now :: rat
  issued :: nat
  trace :: "event list"
  console :: "line list"
  server :: server_state

definition initial_world :: world where
  "initial_world = \<lparr>now = 0, issued = 0, trace = [], console = [], server = NotStarted\<rparr>"

definition say :: "line list \<Rightarrow> world \<Rightarrow> world" where
  "say ls w = w\<lparr>console := console w @ ls\<rparr>"

text \<open>
  An \<^verbatim>\<open>async\<close> function returns, throws, or never settles (when it awaits a promise
  that stays pending, or loops without end).
\<close>

datatype 'a completion = Returned 'a | Threw js_error | NeverSettles

subsection \<open>\<^verbatim>\<open>benchmarkRoute\<close>: the warmup (lines 115 to 123)\<close>

text \<open>
  \<^verbatim>\<open>try { await makeRequest(port, path) } catch (err) { }\<close>, \<^verbatim>\<open>WARMUP_REQUESTS\<close>
  times: the next request is issued when the one before has settled, and the
  settled value is dropped. The clock advances by the time the request took.
\<close>

fun warmup :: "network \<Rightarrow> nat \<Rightarrow> string \<Rightarrow> nat \<Rightarrow> world \<Rightarrow> world \<times> unit completion" where
  "warmup net port path 0 w = (w, Returned ())"
| "warmup net port path (Suc n) w =
     (let k = issued w;
          w1 = w\<lparr>issued := Suc k, trace := trace w @ [Issue Warmup k]\<rparr>
      in case makeRequest net port path k of
           Pending \<Rightarrow> (w1, NeverSettles)
         | settled \<Rightarrow>
             warmup net port path n
               (w1\<lparr>now := now w1 + elapsed (net port path k),
                    trace := trace w1 @ [Settle k]\<rparr>))"

subsection \<open>\<^verbatim>\<open>benchmarkRoute\<close>: the batches (lines 129 to 150)\<close>

text \<open>
  The handlers of lines 140 to 145 on the local variables \<^verbatim>\<open>times\<close> and \<^verbatim>\<open>errors\<close>,
  and the promise \<^verbatim>\<open>makeRequest(..).then(..).catch(..)\<close> that is pushed: it is
  fulfilled as soon as the request has settled either way, since neither handler
  throws.
\<close>

definition on_settled :: "reply promise \<Rightarrow> rat list \<times> nat \<Rightarrow> rat list \<times> nat" where
  "on_settled p acc =
     (case p of
        Fulfilled result \<Rightarrow> (fst acc @ [time result], snd acc)
      | Rejected err \<Rightarrow> (fst acc, snd acc + 1)
      | Pending \<Rightarrow> acc)"

definition chained :: "reply promise \<Rightarrow> unit promise" where
  "chained p = (case p of Pending \<Rightarrow> Pending | settled \<Rightarrow> Fulfilled ())"

text \<open>
  \<^verbatim>\<open>Promise.all\<close>: rejected as soon as one of the promises is, fulfilled when all
  are, pending otherwise.
\<close>

fun promise_all :: "unit promise list \<Rightarrow> unit promise" where
  "promise_all [] = Fulfilled ()"
| "promise_all (p # ps) =
     (case p of
        Rejected e \<Rightarrow> Rejected e
      | Pending \<Rightarrow> (case promise_all ps of Rejected e \<Rightarrow> Rejected e | other \<Rightarrow> Pending)
      | Fulfilled u \<Rightarrow> promise_all ps)"

text \<open>
  One iteration of the outer loop. The inner loop issues \<open>batchCount\<close> requests
  without waiting; they settle in the order of the times they take (the sort is
  stable, so equal times settle in issue order), each running its handler; the
  \<^verbatim>\<open>await\<close> returns when the last one has settled.
\<close>

definition run_batch ::
  "network \<Rightarrow> nat \<Rightarrow> string \<Rightarrow> nat \<Rightarrow> nat \<Rightarrow> rat list \<times> nat \<Rightarrow> world
     \<Rightarrow> world \<times> (rat list \<times> nat) completion" where
  "run_batch net port path batch batchCount acc w =
     (let k0 = issued w;
          ids = [k0 ..< k0 + batchCount];
          w1 = w\<lparr>issued := k0 + batchCount,
                 trace := trace w @ map (Issue (Batch batch)) ids\<rparr>;
          settled = sort_key (\<lambda>k. elapsed (net port path k))
                      (filter (\<lambda>k. makeRequest net port path k \<noteq> Pending) ids);
          acc' = foldl (\<lambda>a k. on_settled (makeRequest net port path k) a) acc settled;
          w2 = w1\<lparr>trace := trace w1 @ map Settle settled\<rparr>
      in case promise_all (map (\<lambda>k. chained (makeRequest net port path k)) ids) of
           Fulfilled u \<Rightarrow>
             (w2\<lparr>now := now w2 + foldr max (map (\<lambda>k. elapsed (net port path k)) ids) 0\<rparr>,
              Returned acc')
         | Pending \<Rightarrow> (w2, NeverSettles)
         | Rejected e \<Rightarrow> (w2, Threw (Rejection e)))"

text \<open>
  The outer loop of lines 133 to 150. While \<open>batch < batches\<close> holds, \<open>batch * batchSize\<close>
  is below \<open>count\<close>, so the difference in \<^verbatim>\<open>Math.min(batchSize, count - batch * batchSize)\<close>
  is positive and the subtraction on natural numbers is the source's.
\<close>

function batch_loop ::
  "network \<Rightarrow> nat \<Rightarrow> string \<Rightarrow> nat \<Rightarrow> nat \<Rightarrow> nat \<Rightarrow> nat \<Rightarrow> rat list \<times> nat \<Rightarrow> world
     \<Rightarrow> world \<times> (rat list \<times> nat) completion" where
  "batch_loop net port path count batchSize batches batch acc w =
     (if batch < batches then
        (case run_batch net port path batch (min batchSize (count - batch * batchSize)) acc w of
           (w', Returned acc') \<Rightarrow>
             batch_loop net port path count batchSize batches (Suc batch) acc' w'
         | (w', Threw e) \<Rightarrow> (w', Threw e)
         | (w', NeverSettles) \<Rightarrow> (w', NeverSettles))
      else (w, Returned acc))"
  by pat_completeness auto
termination
  by (relation "measure (\<lambda>(net, port, path, count, batchSize, batches, batch, acc, w).
        batches - batch)") auto

text \<open>
  \<^verbatim>\<open>Math.ceil(count / batchSize)\<close>. For a positive \<open>batchSize\<close> it is the ceiling of
  the quotient (the double quotient of two integers below \<open>2^53\<close> rounds to an
  integer only when it is one). \<open>count / 0\<close> is \<^verbatim>\<open>Infinity\<close> for a positive \<open>count\<close>,
  written \<open>None\<close>, and \<open>0 / 0\<close> is \<^verbatim>\<open>NaN\<close>, for which \<^verbatim>\<open>batch < batches\<close> is false as
  it is for \<open>0\<close>.
\<close>

definition number_of_batches :: "nat \<Rightarrow> nat \<Rightarrow> nat option" where
  "number_of_batches count batchSize =
     (if batchSize = 0 then (if count = 0 then Some 0 else None)
      else Some ((count + batchSize - 1) div batchSize))"

text \<open>
  With \<^verbatim>\<open>batches = Infinity\<close> the loop never ends: every iteration issues
  \<open>min 0 count = 0\<close> requests and awaits \<^verbatim>\<open>Promise.all([])\<close>.
\<close>

definition measure_batches ::
  "network \<Rightarrow> nat \<Rightarrow> string \<Rightarrow> nat \<Rightarrow> nat \<Rightarrow> world \<Rightarrow> world \<times> (rat list \<times> nat) completion" where
  "measure_batches net port path count batchSize w =
     (case number_of_batches count batchSize of
        None \<Rightarrow> (w, NeverSettles)
      | Some batches \<Rightarrow> batch_loop net port path count batchSize batches 0 ([], 0) w)"

subsection \<open>\<^verbatim>\<open>benchmarkRoute\<close> as a whole (lines 109 to 179)\<close>

text \<open>
  The three constants of lines 19 to 21. The source fixes them; the model takes them
  as a parameter, and \<open>source_config\<close> is the source's choice.
\<close>

record config =
  WARMUP_REQUESTS :: nat
  BENCHMARK_REQUESTS :: nat
  CONCURRENT_REQUESTS :: nat

definition source_config :: config where
  "source_config =
     \<lparr>WARMUP_REQUESTS = 1000, BENCHMARK_REQUESTS = 10000, CONCURRENT_REQUESTS = 100\<rparr>"

record scenario_result =
  name :: string
  count :: nat
  totalTime :: rat
  reqPerSec :: jsval
  latency :: latency_stats
  errors :: nat

text \<open>
  Lines 110 to 153: the two announcements, the warmup, the start time, the batches,
  the end time. What it hands to the statistics is the total time and the final values
  of \<^verbatim>\<open>times\<close> and \<^verbatim>\<open>errors\<close>.
\<close>

definition collect ::
  "config \<Rightarrow> network \<Rightarrow> nat \<Rightarrow> string \<Rightarrow> string \<Rightarrow> nat \<Rightarrow> world
     \<Rightarrow> world \<times> (rat \<times> rat list \<times> nat) completion" where
  "collect cfg net port path nm cnt w =
     (case warmup net port path (WARMUP_REQUESTS cfg)
             (say [BenchmarkingLine nm, WarmupLine (WARMUP_REQUESTS cfg)] w) of
        (w1, Returned u) \<Rightarrow>
          (let w2 = say [RunningLine cnt] w1;
               startTime = now w2
           in case measure_batches net port path cnt (CONCURRENT_REQUESTS cfg) w2 of
                (w3, Returned (tms, errs)) \<Rightarrow> (w3, Returned (now w3 - startTime, tms, errs))
              | (w3, Threw e) \<Rightarrow> (w3, Threw e)
              | (w3, NeverSettles) \<Rightarrow> (w3, NeverSettles))
      | (w1, Threw e) \<Rightarrow> (w1, Threw e)
      | (w1, NeverSettles) \<Rightarrow> (w1, NeverSettles))"

text \<open>
  Lines 155 to 178. The template literals of lines 167 and 168 call \<^verbatim>\<open>toFixed\<close> on
  \<^verbatim>\<open>avg\<close>, \<^verbatim>\<open>min\<close>, \<^verbatim>\<open>max\<close> and on the three percentiles, in that order; the first
  call that throws ends the function, after the lines printed before it.
  \<^verbatim>\<open>totalTime\<close> and \<^verbatim>\<open>reqPerSec\<close> are numbers in every run.
\<close>

definition toFixed3 :: "jsval \<Rightarrow> jsval \<Rightarrow> jsval \<Rightarrow> js_error + jsval \<times> jsval \<times> jsval" where
  "toFixed3 a b c =
     (case toFixed a of
        Inl e \<Rightarrow> Inl e
      | Inr a' \<Rightarrow>
          (case toFixed b of
             Inl e \<Rightarrow> Inl e
           | Inr b' \<Rightarrow> (case toFixed c of Inl e \<Rightarrow> Inl e | Inr c' \<Rightarrow> Inr (a', b', c'))))"

definition report ::
  "string \<Rightarrow> nat \<Rightarrow> rat \<Rightarrow> rat list \<Rightarrow> nat \<Rightarrow> world \<Rightarrow> world \<times> scenario_result completion" where
  "report nm cnt elapsed_ms ts errs w =
     (let st = calculate_statistics ts;
          rps = js_times (js_div (of_nat cnt) elapsed_ms) 1000;
          w1 = say [CompletedLine cnt elapsed_ms, ReqPerSecLine rps] w
      in case toFixed3 (avg st) (min_t st) (max_t st) of
           Inl e \<Rightarrow> (w1, Threw e)
         | Inr (a, lo, hi) \<Rightarrow>
             (let w2 = say [LatencyLine a lo hi] w1
              in case toFixed3 (p50 st) (p95 st) (p99 st) of
                   Inl e \<Rightarrow> (w2, Threw e)
                 | Inr (q50, q95, q99) \<Rightarrow>
                     (say [PercentilesLine q50 q95 q99, ErrorsLine errs] w2,
                      Returned \<lparr>name = nm, count = cnt, totalTime = elapsed_ms, reqPerSec = rps,
                                latency = st, errors = errs\<rparr>)))"

definition benchmarkRoute ::
  "config \<Rightarrow> network \<Rightarrow> nat \<Rightarrow> string \<Rightarrow> string \<Rightarrow> nat \<Rightarrow> world
     \<Rightarrow> world \<times> scenario_result completion" where
  "benchmarkRoute cfg net port path nm cnt w =
     (case collect cfg net port path nm cnt w of
        (w1, Returned (elapsed_ms, tms, errs)) \<Rightarrow> report nm cnt elapsed_ms tms errs w1
      | (w1, Threw e) \<Rightarrow> (w1, Threw e)
      | (w1, NeverSettles) \<Rightarrow> (w1, NeverSettles))"

subsection \<open>\<^verbatim>\<open>runBenchmarks\<close> (lines 182 to 264) and the entry point (lines 267 to 272)\<close>

text \<open>
  The rest of the environment: whether \<^verbatim>\<open>app.listen(0)\<close> binds, and to which port.
  When it does not, \<^verbatim>\<open>server.address()\<close> is \<^verbatim>\<open>null\<close> and line 193 throws a
  \<^verbatim>\<open>TypeError\<close>, before the \<^verbatim>\<open>try\<close>.
\<close>

record env =
  bound_port :: "nat option"
  wire :: network

text \<open>
  Lines 183 to 195, before the \<^verbatim>\<open>try\<close>: the banner, the configuration, the server,
  its port. \<^verbatim>\<open>createApp\<close> only registers middleware and routes on the application
  under test; the harness sees that application through the network alone.
\<close>

definition startup :: "config \<Rightarrow> env \<Rightarrow> world \<Rightarrow> world \<times> nat completion" where
  "startup cfg e w =
     (let w1 = say [Rule, Title, Rule, ConfigHeader,
                    ConfigLine ''Warmup requests'' (WARMUP_REQUESTS cfg),
                    ConfigLine ''Benchmark requests'' (BENCHMARK_REQUESTS cfg),
                    ConfigLine ''Concurrent requests'' (CONCURRENT_REQUESTS cfg)] w
      in case bound_port e of
           None \<Rightarrow> (w1\<lparr>server := BindFailed\<rparr>, Threw TypeError)
         | Some port \<Rightarrow> (say [ListeningLine port] (w1\<lparr>server := Listening port\<rparr>), Returned port))"

text \<open>The six calls of lines 201 to 223, as (path, name).\<close>

definition scenarios :: "(string \<times> string) list" where
  "scenarios =
     [(''/simple'', ''Simple Route''),
      (''/json'', ''JSON Route (Header Cache)''),
      (''/users/123'', ''Parameterized Route''),
      (''/search?q=test&limit=10&offset=0'', ''Query String Route (LRU Cache)''),
      (''/middleware'', ''Middleware Chain (5 middleware)''),
      (''/static'', ''Static Route (Fast Path)'')]"

fun run_scenarios ::
  "config \<Rightarrow> network \<Rightarrow> nat \<Rightarrow> (string \<times> string) list \<Rightarrow> scenario_result list \<Rightarrow> world
     \<Rightarrow> world \<times> scenario_result list completion" where
  "run_scenarios cfg net port [] benchmarkResults w = (w, Returned benchmarkResults)"
| "run_scenarios cfg net port ((path, nm) # rest) benchmarkResults w =
     (case benchmarkRoute cfg net port path nm (BENCHMARK_REQUESTS cfg) w of
        (w', Returned r) \<Rightarrow> run_scenarios cfg net port rest (benchmarkResults @ [r]) w'
      | (w', Threw e) \<Rightarrow> (w', Threw e)
      | (w', NeverSettles) \<Rightarrow> (w', NeverSettles))"

text \<open>
  Lines 232 to 237, the \<^verbatim>\<open>forEach\<close> over the collected results: one row each, with
  \<^verbatim>\<open>toFixed\<close> on \<^verbatim>\<open>reqPerSec\<close> and on \<^verbatim>\<open>latency.avg\<close>.
\<close>

fun print_rows :: "scenario_result list \<Rightarrow> world \<Rightarrow> world \<times> unit completion" where
  "print_rows [] w = (w, Returned ())"
| "print_rows (r # rs) w =
     (case toFixed (reqPerSec r) of
        Inl e \<Rightarrow> (w, Threw e)
      | Inr rps \<Rightarrow>
          (case toFixed (avg (latency r)) of
             Inl e \<Rightarrow> (w, Threw e)
           | Inr a \<Rightarrow> print_rows rs (say [SummaryRow (name r) rps a] w)))"

text \<open>
  The body of the \<^verbatim>\<open>try\<close>: the scenarios, then the summary (lines 226 to 237) and
  the fixed closing notes (lines 239 to 254, one \<open>ImpactNotes\<close> line here).
\<close>

definition try_body :: "config \<Rightarrow> network \<Rightarrow> nat \<Rightarrow> world \<Rightarrow> world \<times> unit completion" where
  "try_body cfg net port w =
     (case run_scenarios cfg net port scenarios [] w of
        (w1, Returned benchmarkResults) \<Rightarrow>
          (case print_rows benchmarkResults
                  (say [Rule, SummaryTitle, Rule, SummaryHeader, Rule] w1) of
             (w2, Returned u) \<Rightarrow> (say [ImpactNotes] w2, Returned ())
           | other \<Rightarrow> other)
      | (w1, Threw e) \<Rightarrow> (w1, Threw e)
      | (w1, NeverSettles) \<Rightarrow> (w1, NeverSettles))"

text \<open>
  \<^verbatim>\<open>catch (err)\<close> prints the error and does not rethrow; \<^verbatim>\<open>finally\<close> closes the
  server and prints the closing lines. A \<^verbatim>\<open>try\<close> body that never settles reaches
  neither.
\<close>

definition runBenchmarks :: "config \<Rightarrow> env \<Rightarrow> world \<Rightarrow> world \<times> unit completion" where
  "runBenchmarks cfg e w =
     (case startup cfg e w of
        (w1, Returned port) \<Rightarrow>
          (case try_body cfg (wire e) port w1 of
             (w2, NeverSettles) \<Rightarrow> (w2, NeverSettles)
           | (w2, Threw err) \<Rightarrow>
               (say [Rule, CompleteLine, Rule]
                  ((say [BenchmarkError err] w2)\<lparr>server := Closed\<rparr>), Returned ())
           | (w2, Returned u) \<Rightarrow>
               (say [Rule, CompleteLine, Rule] (w2\<lparr>server := Closed\<rparr>), Returned ()))
      | (w1, Threw err) \<Rightarrow> (w1, Threw err)
      | (w1, NeverSettles) \<Rightarrow> (w1, NeverSettles))"

text \<open>
  \<^verbatim>\<open>runBenchmarks().catch(err => { console.error(..); process.exit(1) })\<close>: the
  process exits with status 1 when the promise of \<^verbatim>\<open>runBenchmarks\<close> is rejected;
  when it is fulfilled nothing sets an exit code and the process ends with status 0.
  The result is the final state and the exit status, \<open>None\<close> for a process that
  does not exit.
\<close>

definition main :: "config \<Rightarrow> env \<Rightarrow> world \<times> nat option" where
  "main cfg e =
     (case runBenchmarks cfg e initial_world of
        (w, Returned u) \<Rightarrow> (w, Some 0)
      | (w, Threw err) \<Rightarrow> (say [FatalError err] w, Some 1)
      | (w, NeverSettles) \<Rightarrow> (w, None))"

subsection \<open>Vocabulary of the properties\<close>

fun is_fulfilled :: "'a promise \<Rightarrow> bool" where
  "is_fulfilled (Fulfilled v) = True"
| "is_fulfilled p = False"

fun is_rejected :: "'a promise \<Rightarrow> bool" where
  "is_rejected (Rejected e) = True"
| "is_rejected p = False"

text \<open>The events a step appended to the trace.\<close>

definition new_events :: "world \<Rightarrow> world \<Rightarrow> event list" where
  "new_events w w' = drop (length (trace w)) (trace w')"

text \<open>
  The counter of simultaneously active calls of the dispatcher: up by one at every
  issue, down by one at every settlement.
\<close>

fun active :: "event list \<Rightarrow> int" where
  "active [] = 0"
| "active (Issue ph k # es) = active es + 1"
| "active (Settle k # es) = active es - 1"

text \<open>The lines of the summary table (lines 226 to 237).\<close>

fun is_summary :: "line \<Rightarrow> bool" where
  "is_summary SummaryTitle = True"
| "is_summary SummaryHeader = True"
| "is_summary (SummaryRow nm rps a) = True"
| "is_summary l = False"

text \<open>A result whose summary row can be printed.\<close>

definition printable :: "scenario_result \<Rightarrow> bool" where
  "printable r = (reqPerSec r \<noteq> Undefined \<and> avg (latency r) \<noteq> Undefined)"


fun all_issued :: "event list \<Rightarrow> nat list" where
  "all_issued [] = []"
| "all_issued (Issue ph k # es) = k # all_issued es"
| "all_issued (Settle k # es) = all_issued es"

text \<open>The events of one batch: its issues, then the settlements that happen.\<close>

definition batch_events :: "network \<Rightarrow> nat \<Rightarrow> string \<Rightarrow> nat \<Rightarrow> nat \<Rightarrow> nat \<Rightarrow> event list" where
  "batch_events net port path b k0 n =
     map (Issue (Batch b)) [k0 ..< k0 + n]
     @ map Settle (sort_key (\<lambda>k. elapsed (net port path k))
                     (filter (\<lambda>k. makeRequest net port path k \<noteq> Pending) [k0 ..< k0 + n]))"

text \<open>
  The shape of the trace of the batch loop from batch \<open>b\<close>, whose first request is
  \<open>k0\<close>, up to \<open>m\<close> batches of sizes \<open>sz\<close>: complete batches one after the other, each
  with all its requests settled, and then either the end of the loop or one batch
  in which some request stays pending. The flag tells which.
\<close>

inductive batch_run :: "(nat \<Rightarrow> nat) \<Rightarrow> nat \<Rightarrow> nat \<Rightarrow> nat \<Rightarrow> bool \<Rightarrow> event list \<Rightarrow> bool"
  for sz :: "nat \<Rightarrow> nat" and m :: nat where
  finished: "batch_run sz m m k0 True []"
| stuck: "b < m \<Longrightarrow> distinct st \<Longrightarrow> set st \<subseteq> {k0 ..< k0 + sz b} \<Longrightarrow>
     batch_run sz m b k0 False (map (Issue (Batch b)) [k0 ..< k0 + sz b] @ map Settle st)"
| continue: "b < m \<Longrightarrow> distinct st \<Longrightarrow> set st = {k0 ..< k0 + sz b} \<Longrightarrow>
     batch_run sz m (Suc b) (k0 + sz b) c es \<Longrightarrow>
     batch_run sz m b k0 c (map (Issue (Batch b)) [k0 ..< k0 + sz b] @ map Settle st @ es)"

subsection \<open>Small concrete runs\<close>

text \<open>
  A configuration small enough to run inside the logic, and three networks: one that
  answers every request, the later the slower, except that request 3 times out and
  then reports the error of the destroyed socket; one that answers the first three
  requests and fails all later ones; one that fails every request.
\<close>

definition tiny_config :: config where
  "tiny_config = \<lparr>WARMUP_REQUESTS = 1, BENCHMARK_REQUESTS = 2, CONCURRENT_REQUESTS = 2\<rparr>"

definition demo_net :: network where
  "demo_net port path k =
     (if k = 3 then \<lparr>elapsed = 5000, callbacks = [SocketTimeout, RequestError]\<rparr>
      else \<lparr>elapsed = of_nat (10 + k), callbacks = [ResponseEnd 200]\<rparr>)"

definition failing_net :: network where
  "failing_net port path k =
     (if 3 \<le> k then \<lparr>elapsed = 1, callbacks = [RequestError]\<rparr>
      else \<lparr>elapsed = 2, callbacks = [ResponseEnd 200]\<rparr>)"

definition dead_net :: network where
  "dead_net port path k = \<lparr>elapsed = 1, callbacks = [RequestError]\<rparr>"


text \<open>The first of them with a different answer to request 0.\<close>

definition detour_net :: network where
  "detour_net port path k =
     (if k = 0 then \<lparr>elapsed = 777, callbacks = [RequestError]\<rparr> else demo_net port path k)"

definition failing_env :: env where
  "failing_env = \<lparr>bound_port = Some 1, wire = failing_net\<rparr>"

definition unbound_env :: env where
  "unbound_env = \<lparr>bound_port = None, wire = dead_net\<rparr>"

section \<open>Properties\<close>

subsection \<open>Percentile indices\<close>

text \<open>
  Rounding to nearest moves a positive integer up by at most half a unit in the last
  place, and \<open>2^53\<close> such half units do not exceed the number itself.
\<close>

lemma round53_upper:
  assumes "0 < P"
  shows "\<exists>d. 0 \<le> d \<and> round53 P \<le> P + d \<and> d * 2 ^ 53 \<le> P"
proof (cases "bitlen P \<le> 53")
  case True
  then have "round53 P = P" by (simp add: round53_def)
  with assms show ?thesis by (intro exI [of _ 0]) simp
next
  case False
  define s where "s = nat (bitlen P - 53)"
  define q where "q = P div 2 ^ s"
  define r where "r = P mod 2 ^ s"
  define h :: int where "h = 2 ^ (s - 1)"
  from False have s_pos: "0 < s" by (simp add: s_def)
  then have two_h: "(2::int) ^ s = 2 * h"
    by (cases s) (simp_all add: h_def)
  have split: "P = q * 2 ^ s + r"
    using div_mult_mod_eq [of P "2 ^ s"] by (simp add: q_def r_def)
  have r_nonneg: "0 \<le> r" by (simp add: r_def)
  have "nat (bitlen P - 1) = (s - 1) + 53" using False by (simp add: s_def)
  moreover have "2 ^ nat (bitlen P - 1) \<le> P" using bitlen_bounds [OF assms] by simp
  ultimately have h_small: "h * 2 ^ 53 \<le> P" by (simp add: h_def power_add)
  have r53: "round53 P = (if h < r \<or> (r = h \<and> odd q) then (q + 1) * 2 ^ s else q * 2 ^ s)"
    using False by (simp add: round53_def Let_def s_def q_def r_def h_def)
  have "round53 P \<le> P + h"
  proof (cases "h < r \<or> (r = h \<and> odd q)")
    case True
    then have "h \<le> r" by auto
    moreover from True have "round53 P = q * 2 ^ s + 2 ^ s" by (simp add: r53 algebra_simps)
    ultimately show ?thesis using split two_h by linarith
  next
    case False
    then have "round53 P = q * 2 ^ s" by (simp add: r53)
    moreover have "0 \<le> h" by (simp add: h_def)
    ultimately show ?thesis using split r_nonneg by linarith
  qed
  moreover have "0 \<le> h" by (simp add: h_def)
  ultimately show ?thesis using h_small by blast
qed

lemma round53_nonneg: "0 \<le> P \<Longrightarrow> 0 \<le> round53 P"
  by (auto simp: round53_def Let_def pos_imp_zdiv_nonneg_iff)

text \<open>For a double \<open>m / 2^53\<close> below one, the floored product with \<open>n\<close> is below \<open>n\<close>.\<close>

lemma floor_mul_bounds:
  assumes "0 < n" and "0 < m" and "m < 2 ^ 53"
  shows "0 \<le> floor_mul n m \<and> floor_mul n m < int n"
proof -
  have P_pos: "0 < int n * m" using assms by simp
  obtain d where d: "0 \<le> d" "round53 (int n * m) \<le> int n * m + d" "d * 2 ^ 53 \<le> int n * m"
    using round53_upper [OF P_pos] by blast
  have "int n * m < int n * 2 ^ 53" using assms by simp
  with d(3) have "d * 2 ^ 53 < int n * 2 ^ 53" by linarith
  then have "d < int n" by simp
  then have "int n * m + d < int n * (m + 1)" by (simp add: algebra_simps)
  also have "\<dots> \<le> int n * 2 ^ 53" using assms by (intro mult_left_mono) simp_all
  finally have "round53 (int n * m) < int n * 2 ^ 53" using d(2) by linarith
  then have "round53 (int n * m) div 2 ^ 53 < int n"
    by (simp add: div_less_iff_less_mult mult.commute)
  moreover have "0 \<le> round53 (int n * m) div 2 ^ 53"
    using round53_nonneg [of "int n * m"] P_pos by (simp add: pos_imp_zdiv_nonneg_iff)
  ultimately show ?thesis by (simp add: floor_mul_def)
qed

lemma js_index_member:
  "0 \<le> i \<Longrightarrow> i < int (length xs) \<Longrightarrow> js_index xs i \<in> Num ` set xs"
  by (simp add: js_index_def)






text \<open>
  C10. For a non-empty list of latencies, of length \<open>n\<close>, the three indices
  \<open>floor (n * 0.5)\<close>, \<open>floor (n * 0.95)\<close> and \<open>floor (n * 0.99)\<close>, computed in double
  precision as the source does, lie in \<open>0 .. n - 1\<close>, so the reads of lines 160 to 162
  are in range and each reported percentile is one of the latencies.
\<close>

theorem percentile_index_in_range:
  assumes "ts \<noteq> []"
  shows "0 \<le> floor_mul (length ts) half_m \<and> floor_mul (length ts) half_m \<le> int (length ts) - 1
       \<and> 0 \<le> floor_mul (length ts) p95_m \<and> floor_mul (length ts) p95_m \<le> int (length ts) - 1
       \<and> 0 \<le> floor_mul (length ts) p99_m \<and> floor_mul (length ts) p99_m \<le> int (length ts) - 1
       \<and> p50 (calculate_statistics ts) \<in> Num ` set ts
       \<and> p95 (calculate_statistics ts) \<in> Num ` set ts
       \<and> p99 (calculate_statistics ts) \<in> Num ` set ts"
proof -
  from assms have n: "0 < length ts" by simp
  have b50: "0 \<le> floor_mul (length ts) half_m \<and> floor_mul (length ts) half_m < int (length ts)"
    by (rule floor_mul_bounds [OF n]) (simp_all add: half_m_def)
  have b95: "0 \<le> floor_mul (length ts) p95_m \<and> floor_mul (length ts) p95_m < int (length ts)"
    by (rule floor_mul_bounds [OF n]) (simp_all add: p95_m_def)
  have b99: "0 \<le> floor_mul (length ts) p99_m \<and> floor_mul (length ts) p99_m < int (length ts)"
    by (rule floor_mul_bounds [OF n]) (simp_all add: p99_m_def)
  have "js_index (sort ts) (floor_mul (length ts) half_m) \<in> Num ` set (sort ts)"
    using b50 by (intro js_index_member) simp_all
  moreover have "js_index (sort ts) (floor_mul (length ts) p95_m) \<in> Num ` set (sort ts)"
    using b95 by (intro js_index_member) simp_all
  moreover have "js_index (sort ts) (floor_mul (length ts) p99_m) \<in> Num ` set (sort ts)"
    using b99 by (intro js_index_member) simp_all
  ultimately show ?thesis
    using b50 b95 b99 by (simp add: calculate_statistics_def Let_def)
qed

theorem percentile_index_in_range_witness:
  "[3, 1, 2 :: rat] \<noteq> []
   \<and> floor_mul (length [3, 1, 2 :: rat]) p95_m \<le> int (length [3, 1, 2 :: rat]) - 1
   \<and> p50 (calculate_statistics [3, 1, 2]) \<in> Num ` set [3, 1, 2]
   \<and> p99 (calculate_statistics [3, 1, 2]) \<in> Num ` set [3, 1, 2]"
proof -
  have h: "[3, 1, 2 :: rat] \<noteq> []" by simp
  show ?thesis using h percentile_index_in_range [OF h] by simp
qed

subsection \<open>Requests, promises and the accounting of a batch\<close>

lemma fire_settled: "p \<noteq> Pending \<Longrightarrow> fire t p c = p"
  by (cases c; cases p) (simp_all add: resolve_def reject_def)

lemma settled_stays: "p \<noteq> Pending \<Longrightarrow> foldl (fire t) p cs = p"
  by (induction cs) (simp_all add: fire_settled)

lemma makeRequest_first:
  "callbacks (net port path k) = c # cs \<Longrightarrow>
     makeRequest net port path k = fire (elapsed (net port path k)) Pending c"
  by (cases c) (simp_all add: makeRequest_def Let_def settled_stays resolve_def reject_def)

lemma makeRequest_Pending_iff:
  "makeRequest net port path k = Pending \<longleftrightarrow> callbacks (net port path k) = []"
proof (cases "callbacks (net port path k)")
  case Nil
  then show ?thesis by (simp add: makeRequest_def)
next
  case (Cons c cs)
  then show ?thesis
    by (cases c) (simp_all add: makeRequest_first resolve_def reject_def)
qed

lemma makeRequest_time:
  "makeRequest net port path k = Fulfilled r \<Longrightarrow> time r = elapsed (net port path k)"
proof (cases "callbacks (net port path k)")
  case Nil
  then show "makeRequest net port path k = Fulfilled r \<Longrightarrow> ?thesis" by (simp add: makeRequest_def)
next
  case (Cons c cs)
  then show "makeRequest net port path k = Fulfilled r \<Longrightarrow> ?thesis"
    by (cases c) (auto simp: makeRequest_first resolve_def reject_def)
qed

lemma promise_all_chained:
  "promise_all (map (\<lambda>k. chained (p k)) ids) =
     (if \<exists>k \<in> set ids. p k = Pending then Pending else Fulfilled ())"
  by (induction ids) (auto simp: chained_def split: promise.splits)

lemma foldl_on_settled_length:
  "length (fst (foldl (\<lambda>a k. on_settled (p k) a) acc ks)) =
     length (fst acc) + length (filter (\<lambda>k. is_fulfilled (p k)) ks)"
  by (induction ks arbitrary: acc) (auto simp: on_settled_def split: promise.splits)

lemma foldl_on_settled_errors:
  "snd (foldl (\<lambda>a k. on_settled (p k) a) acc ks) =
     snd acc + length (filter (\<lambda>k. is_rejected (p k)) ks)"
  by (induction ks arbitrary: acc) (auto simp: on_settled_def split: promise.splits)

lemma fulfilled_or_rejected:
  "length (filter (\<lambda>k. is_fulfilled (p k)) ks) + length (filter (\<lambda>k. is_rejected (p k)) ks)
     = length (filter (\<lambda>k. p k \<noteq> Pending) ks)"
proof (induction ks)
  case Nil
  show ?case by simp
next
  case (Cons k ks)
  then show ?case by (cases "p k") simp_all
qed

text \<open>What a batch that returns has done, in terms of the promises of its requests.\<close>

lemma run_batch_Returned:
  assumes "run_batch net port path b n acc w = (w', Returned acc')"
  shows "(\<forall>k \<in> set [issued w ..< issued w + n]. makeRequest net port path k \<noteq> Pending)
       \<and> length (fst acc') = length (fst acc)
            + length (filter (\<lambda>k. is_fulfilled (makeRequest net port path k)) [issued w ..< issued w + n])
       \<and> snd acc' = snd acc
            + length (filter (\<lambda>k. is_rejected (makeRequest net port path k)) [issued w ..< issued w + n])
       \<and> issued w' = issued w + n"
proof -
  let ?ids = "[issued w ..< issued w + n]"
  let ?p = "makeRequest net port path"
  have all: "promise_all (map (\<lambda>k. chained (?p k)) ?ids) = Fulfilled ()"
    using assms by (simp add: run_batch_def Let_def split: promise.splits)
  then have settled: "\<forall>k \<in> set ?ids. ?p k \<noteq> Pending"
    unfolding promise_all_chained by (simp split: if_splits)
  then have keep: "filter (\<lambda>k. ?p k \<noteq> Pending) ?ids = ?ids"
    by (simp only: filter_id_conv) 
  have acc': "acc' = foldl (\<lambda>a k. on_settled (?p k) a) acc
                      (sort_key (\<lambda>k. elapsed (net port path k)) ?ids)"
    using assms all keep by (simp add: run_batch_def Let_def)
  have "issued w' = issued w + n"
    using assms all by (auto simp add: run_batch_def Let_def)
  then show ?thesis
    using settled by (simp add: acc' foldl_on_settled_length foldl_on_settled_errors filter_sort)
qed


declare batch_loop.simps [simp del]

lemma batch_loop_accounting:
  "batch \<le> batches \<Longrightarrow>
   batch_loop net port path cnt batchSize batches batch acc w = (w', Returned acc') \<Longrightarrow>
   length (fst acc') + snd acc' + (cnt - batches * batchSize)
     = length (fst acc) + snd acc + (cnt - batch * batchSize)"
proof (induction net port path cnt batchSize batches batch acc w rule: batch_loop.induct)
  case (1 net port path cnt batchSize batches batch acc w)
  show ?case
  proof (cases "batch < batches")
    case False
    then have "batch_loop net port path cnt batchSize batches batch acc w = (w, Returned acc)"
      by (subst batch_loop.simps) simp
    with "1.prems" False show ?thesis by simp
  next
    case True
    let ?n = "min batchSize (cnt - batch * batchSize)"
    obtain w1 r1 where rb: "run_batch net port path batch ?n acc w = (w1, r1)"
      by (cases "run_batch net port path batch ?n acc w")
    with True "1.prems" obtain acc1 where r1: "r1 = Returned acc1"
      by (cases r1) (simp_all add: batch_loop.simps [of _ _ _ _ _ _ batch])
    from True "1.prems" rb r1
    have rest: "batch_loop net port path cnt batchSize batches (Suc batch) acc1 w1 = (w', Returned acc')"
      by (simp add: batch_loop.simps [of _ _ _ _ _ _ batch])
    from True have "Suc batch \<le> batches" by simp
    from "1.IH" [OF True rb [symmetric] r1 this rest]
    have ih: "length (fst acc') + snd acc' + (cnt - batches * batchSize)
                = length (fst acc1) + snd acc1 + (cnt - Suc batch * batchSize)" .
    have one: "length (fst acc1) + snd acc1 = length (fst acc) + snd acc + ?n"
      using run_batch_Returned [OF rb [unfolded r1]]
        fulfilled_or_rejected [of "makeRequest net port path" "[issued w ..< issued w + ?n]"]
      by simp
    have "Suc batch * batchSize = batch * batchSize + batchSize" by simp
    then have "?n + (cnt - Suc batch * batchSize) = cnt - batch * batchSize"
      by (simp only:)
    with ih one show ?thesis by linarith
  qed
qed

lemma ceil_covers: "0 < batchSize \<Longrightarrow> cnt - ((cnt + batchSize - 1) div batchSize) * batchSize = (0::nat)"
proof -
  assume pos: "0 < batchSize"
  have "cnt + batchSize - 1 < ((cnt + batchSize - 1) div batchSize) * batchSize + batchSize"
    using pos by (metis div_mult_mod_eq add_less_cancel_left mod_less_divisor)
  with pos have "cnt \<le> ((cnt + batchSize - 1) div batchSize) * batchSize" by linarith
  then show ?thesis by simp
qed

lemma measure_batches_accounting:
  assumes "measure_batches net port path cnt batchSize w = (w', Returned (tms, errs))"
  shows "length tms + errs = cnt"
proof (cases "number_of_batches cnt batchSize")
  case None
  with assms show ?thesis by (simp add: measure_batches_def)
next
  case (Some batches)
  with assms have loop: "batch_loop net port path cnt batchSize batches 0 ([], 0) w = (w', Returned (tms, errs))"
    by (simp add: measure_batches_def)
  have "cnt - batches * batchSize = 0"
  proof (cases "batchSize = 0")
    case True
    with Some show ?thesis by (simp add: number_of_batches_def split: if_splits)
  next
    case False
    with Some have "batches = (cnt + batchSize - 1) div batchSize"
      by (simp add: number_of_batches_def)
    with False show ?thesis using ceil_covers [of batchSize cnt] by simp
  qed
  with batch_loop_accounting [OF _ loop] show ?thesis by simp
qed

lemma report_Returned:
  "report nm cnt tot ts errs w = (w', Returned r) \<Longrightarrow>
     name r = nm \<and> count r = cnt \<and> totalTime r = tot \<and> errors r = errs
     \<and> latency r = calculate_statistics ts
     \<and> reqPerSec r = js_times (js_div (of_nat cnt) tot) 1000"
  by (auto simp: report_def Let_def split: sum.splits prod.splits)

lemma collect_Returned:
  "collect cfg net port path nm cnt w = (w', Returned (tot, tms, errs)) \<Longrightarrow>
     \<exists>w1 w2. measure_batches net port path cnt (CONCURRENT_REQUESTS cfg) w1 = (w2, Returned (tms, errs))"
  by (auto simp: collect_def Let_def split: prod.splits completion.splits)

text \<open>
  C1. When \<open>benchmarkRoute\<close> returns a result for a requested count, the measurement
  has collected \<open>times\<close> and \<open>errors\<close> with \<open>count = length times + errors\<close>; the
  result reports that count and that number of errors. This holds for every
  configuration, network and starting state.
\<close>

theorem accounting_invariant:
  assumes "benchmarkRoute cfg net port path nm cnt w = (w', Returned r)"
  shows "\<exists>w1 tot tms.
           collect cfg net port path nm cnt w = (w1, Returned (tot, tms, errors r))
           \<and> count r = cnt \<and> count r = length tms + errors r"
proof -
  from assms obtain w1 tot tms errs
    where c: "collect cfg net port path nm cnt w = (w1, Returned (tot, tms, errs))"
      and r: "report nm cnt tot tms errs w1 = (w', Returned r)"
    by (auto simp: benchmarkRoute_def split: prod.splits completion.splits)
  from report_Returned [OF r] have "count r = cnt" and e: "errors r = errs" by simp_all
  moreover from collect_Returned [OF c] measure_batches_accounting
  have "length tms + errs = cnt" by blast
  ultimately show ?thesis using c by auto
qed

theorem accounting_invariant_witness:
  "\<exists>w' r. benchmarkRoute tiny_config demo_net 1 ''/x'' ''X'' 5 initial_world = (w', Returned r)
     \<and> (\<exists>w1 tot tms. collect tiny_config demo_net 1 ''/x'' ''X'' 5 initial_world
            = (w1, Returned (tot, tms, errors r))
          \<and> count r = 5 \<and> count r = length tms + errors r)"
proof -
  have "case benchmarkRoute tiny_config demo_net 1 ''/x'' ''X'' 5 initial_world of
          (w', Returned r) \<Rightarrow> True | other \<Rightarrow> False"
    by code_simp
  then obtain w' r
    where h: "benchmarkRoute tiny_config demo_net 1 ''/x'' ''X'' 5 initial_world = (w', Returned r)"
    by (auto split: prod.splits completion.splits)
  from accounting_invariant [OF h] h show ?thesis by blast
qed

subsection \<open>The console\<close>

lemma warmup_console: "console (fst (warmup net port path n w)) = console w"
  by (induction n arbitrary: w) (simp_all add: Let_def split: promise.splits)

lemma run_batch_console: "console (fst (run_batch net port path b n acc w)) = console w"
  by (simp add: run_batch_def Let_def split: promise.splits)

lemma batch_loop_console:
  "console (fst (batch_loop net port path cnt batchSize batches batch acc w)) = console w"
proof (induction net port path cnt batchSize batches batch acc w rule: batch_loop.induct)
  case (1 net port path cnt batchSize batches batch acc w)
  let ?rb = "run_batch net port path batch (min batchSize (cnt - batch * batchSize)) acc w"
  show ?case
  proof (cases "batch < batches")
    case False
    then show ?thesis by (subst batch_loop.simps) simp
  next
    case True
    obtain w1 r1 where rb: "?rb = (w1, r1)" by (cases ?rb)
    have c1: "console w1 = console w" using run_batch_console [of net port path batch _ acc w] rb
      by (metis fst_conv)
    show ?thesis
    proof (cases r1)
      case (Returned acc1)
      from "1.IH" [OF True rb [symmetric] Returned] c1 True rb Returned
      show ?thesis by (subst batch_loop.simps) simp
    next
      case (Threw e)
      with True rb c1 show ?thesis by (subst batch_loop.simps) simp
    next
      case NeverSettles
      with True rb c1 show ?thesis by (subst batch_loop.simps) simp
    qed
  qed
qed

lemma measure_batches_console:
  "console (fst (measure_batches net port path cnt batchSize w)) = console w"
  by (simp add: measure_batches_def batch_loop_console split: option.splits)

lemma collect_summary:
  "filter is_summary (console (fst (collect cfg net port path nm cnt w)))
     = filter is_summary (console w)"
proof -
  let ?w0 = "say [BenchmarkingLine nm, WarmupLine (WARMUP_REQUESTS cfg)] w"
  obtain w1 r1 where wu: "warmup net port path (WARMUP_REQUESTS cfg) ?w0 = (w1, r1)"
    by (cases "warmup net port path (WARMUP_REQUESTS cfg) ?w0")
  have c1: "console w1 = console ?w0"
    using warmup_console [of net port path "WARMUP_REQUESTS cfg" ?w0] wu by simp
  obtain w3 r3
    where mb: "measure_batches net port path cnt (CONCURRENT_REQUESTS cfg) (say [RunningLine cnt] w1)
                 = (w3, r3)"
    by (cases "measure_batches net port path cnt (CONCURRENT_REQUESTS cfg) (say [RunningLine cnt] w1)")
  have c3: "console w3 = console (say [RunningLine cnt] w1)"
    using measure_batches_console
            [of net port path cnt "CONCURRENT_REQUESTS cfg" "say [RunningLine cnt] w1"] mb
    by simp
  show ?thesis
    using wu mb c1 c3
    by (simp add: collect_def Let_def say_def split: completion.splits prod.splits)
qed

lemma report_summary:
  "filter is_summary (console (fst (report nm cnt tot ts errs w))) = filter is_summary (console w)"
  by (simp add: report_def Let_def say_def split: sum.splits prod.splits)

lemma benchmarkRoute_summary:
  "filter is_summary (console (fst (benchmarkRoute cfg net port path nm cnt w)))
     = filter is_summary (console w)"
proof -
  obtain w1 r1 where c: "collect cfg net port path nm cnt w = (w1, r1)"
    by (cases "collect cfg net port path nm cnt w")
  have "filter is_summary (console w1) = filter is_summary (console w)"
    using collect_summary [of cfg net port path nm cnt w] c by simp
  then show ?thesis
    using c by (simp add: benchmarkRoute_def report_summary split: completion.splits prod.splits)
qed

lemma run_scenarios_summary:
  "filter is_summary (console (fst (run_scenarios cfg net port ss rs w)))
     = filter is_summary (console w)"
proof (induction ss arbitrary: rs w)
  case Nil
  show ?case by simp
next
  case (Cons s ss)
  obtain path nm where s: "s = (path, nm)" by (cases s)
  obtain w1 r1 where b: "benchmarkRoute cfg net port path nm (BENCHMARK_REQUESTS cfg) w = (w1, r1)"
    by (cases "benchmarkRoute cfg net port path nm (BENCHMARK_REQUESTS cfg) w")
  have "filter is_summary (console w1) = filter is_summary (console w)"
    using benchmarkRoute_summary [of cfg net port path nm "BENCHMARK_REQUESTS cfg" w] b by simp
  then show ?case
    using b s Cons.IH by (cases r1) simp_all
qed

subsection \<open>The rows of the summary never throw\<close>

lemma js_div_defined: "js_div a b \<noteq> Undefined"
  by (simp add: js_div_def)

lemma js_times_defined: "v \<noteq> Undefined \<Longrightarrow> js_times v k \<noteq> Undefined"
  by (cases v) (simp_all add: js_times_def)

lemma benchmarkRoute_printable:
  assumes "benchmarkRoute cfg net port path nm cnt w = (w', Returned r)"
  shows "printable r"
proof -
  from assms obtain w1 tot tms errs
    where "report nm cnt tot tms errs w1 = (w', Returned r)"
    by (auto simp: benchmarkRoute_def split: prod.splits completion.splits)
  from report_Returned [OF this] show ?thesis
    by (simp add: printable_def calculate_statistics_def Let_def js_div_defined js_times_defined)
qed

lemma run_scenarios_printable:
  "run_scenarios cfg net port ss rs w = (w', Returned rs') \<Longrightarrow> list_all printable rs
     \<Longrightarrow> list_all printable rs'"
proof (induction ss arbitrary: rs w)
  case Nil
  then show ?case by simp
next
  case (Cons s ss)
  obtain path nm where s: "s = (path, nm)" by (cases s)
  obtain w1 r1 where b: "benchmarkRoute cfg net port path nm (BENCHMARK_REQUESTS cfg) w = (w1, r1)"
    by (cases "benchmarkRoute cfg net port path nm (BENCHMARK_REQUESTS cfg) w")
  with Cons.prems s obtain r where r1: "r1 = Returned r" by (cases r1) simp_all
  with b have "printable r" using benchmarkRoute_printable by blast
  with Cons.prems have "list_all printable (rs @ [r])" by simp
  moreover from Cons.prems b s r1
  have "run_scenarios cfg net port ss (rs @ [r]) w1 = (w', Returned rs')" by simp
  ultimately show ?case using Cons.IH by blast
qed

lemma print_rows_Returned:
  "list_all printable rs \<Longrightarrow> snd (print_rows rs w) = Returned ()"
  by (induction rs arbitrary: w) (simp_all add: printable_def toFixed_def)

text \<open>The body of the \<open>try\<close> throws only when a scenario does.\<close>

lemma try_body_Threw:
  assumes "try_body cfg net port w = (w', Threw err)"
  shows "run_scenarios cfg net port scenarios [] w = (w', Threw err)"
proof -
  obtain w1 r1 where rs: "run_scenarios cfg net port scenarios [] w = (w1, r1)"
    by (cases "run_scenarios cfg net port scenarios [] w")
  show ?thesis
  proof (cases r1)
    case (Returned results)
    with rs have "list_all printable results"
      using run_scenarios_printable [of cfg net port scenarios "[]" w w1 results] by simp
    then have "snd (print_rows results (say [Rule, SummaryTitle, Rule, SummaryHeader, Rule] w1))
                 = Returned ()"
      by (rule print_rows_Returned)
    with assms rs Returned show ?thesis
      by (auto simp: try_body_def split: prod.splits completion.splits)
  next
    case (Threw e)
    with assms rs show ?thesis by (simp add: try_body_def)
  next
    case NeverSettles
    with assms rs show ?thesis by (simp add: try_body_def)
  qed
qed

lemma startup_console:
  "filter is_summary (console (fst (startup cfg e w))) = filter is_summary (console w)"
  by (simp add: startup_def Let_def say_def split: option.splits)

lemma startup_Returned:
  "startup cfg e w = (w1, Returned port) \<longleftrightarrow>
     bound_port e = Some port \<and> w1 = fst (startup cfg e w)"
  by (auto simp: startup_def Let_def split: option.splits)

lemma startup_cases:
  "snd (startup cfg e w) = (case bound_port e of None \<Rightarrow> Threw TypeError | Some port \<Rightarrow> Returned port)"
  by (simp add: startup_def Let_def split: option.splits)

subsection \<open>\<open>runBenchmarks\<close> and the entry point, case by case\<close>

lemma runBenchmarks_unbound:
  "bound_port e = None \<Longrightarrow>
     runBenchmarks cfg e w = (fst (startup cfg e w), Threw TypeError)
     \<and> server (fst (startup cfg e w)) = BindFailed"
  by (simp add: runBenchmarks_def startup_def Let_def)

lemma runBenchmarks_bound:
  assumes "bound_port e = Some port"
    and "try_body cfg (wire e) port (fst (startup cfg e w)) = (w2, r2)"
  shows "runBenchmarks cfg e w =
           (case r2 of
              NeverSettles \<Rightarrow> (w2, NeverSettles)
            | Threw err \<Rightarrow>
                (say [Rule, CompleteLine, Rule]
                   ((say [BenchmarkError err] w2)\<lparr>server := Closed\<rparr>), Returned ())
            | Returned u \<Rightarrow>
                (say [Rule, CompleteLine, Rule] (w2\<lparr>server := Closed\<rparr>), Returned ()))"
  using assms by (simp add: runBenchmarks_def startup_def Let_def split: completion.splits)

lemma main_unbound: "bound_port e = None \<Longrightarrow> snd (main cfg e) = Some 1"
  using runBenchmarks_unbound [of e cfg initial_world] by (simp add: main_def)

lemma main_bound:
  assumes "bound_port e = Some port"
    and "try_body cfg (wire e) port (fst (startup cfg e initial_world)) = (w2, r2)"
  shows "main cfg e =
           (case r2 of
              NeverSettles \<Rightarrow> (w2, None)
            | Threw err \<Rightarrow>
                (say [Rule, CompleteLine, Rule]
                   ((say [BenchmarkError err] w2)\<lparr>server := Closed\<rparr>), Some 0)
            | Returned u \<Rightarrow>
                (say [Rule, CompleteLine, Rule] (w2\<lparr>server := Closed\<rparr>), Some 0))"
  using runBenchmarks_bound [OF assms] by (simp add: main_def split: completion.splits)

lemma failing_run:
  "snd (try_body tiny_config failing_net 1 (fst (startup tiny_config failing_env initial_world)))
     = Threw TypeError"
  by code_simp

text \<open>
  C7. Whenever \<open>runBenchmarks\<close> ends, by returning or by throwing, the server is not
  listening any more: if it was bound, the \<open>finally\<close> block has closed it, whether the
  \<open>try\<close> body returned or threw, and \<open>runBenchmarks\<close> returns; if it could not be
  bound, there is no listening socket and line 193 throws.
\<close>

theorem server_closed_on_every_exit:
  assumes "runBenchmarks cfg e w = (w', r)" and "r \<noteq> NeverSettles"
  shows "(bound_port e \<noteq> None \<longrightarrow> server w' = Closed \<and> r = Returned ())
       \<and> (bound_port e = None \<longrightarrow> server w' = BindFailed \<and> r = Threw TypeError)"
proof (cases "bound_port e")
  case None
  with assms runBenchmarks_unbound [OF None, of cfg w] show ?thesis by simp
next
  case (Some port)
  obtain w2 r2 where tb: "try_body cfg (wire e) port (fst (startup cfg e w)) = (w2, r2)"
    by (cases "try_body cfg (wire e) port (fst (startup cfg e w))")
  from runBenchmarks_bound [OF Some tb] assms Some show ?thesis
    by (cases r2) (auto simp: say_def)
qed

theorem server_closed_on_every_exit_witness:
  "server (fst (runBenchmarks tiny_config failing_env initial_world)) = Closed
   \<and> snd (runBenchmarks tiny_config failing_env initial_world) = Returned ()
   \<and> snd (try_body tiny_config failing_net 1 (fst (startup tiny_config failing_env initial_world)))
       = Threw TypeError"
proof -
  obtain w' r where run: "runBenchmarks tiny_config failing_env initial_world = (w', r)"
    by (cases "runBenchmarks tiny_config failing_env initial_world")
  have b: "bound_port failing_env = Some 1" and wr: "wire failing_env = failing_net"
    by (simp_all add: failing_env_def)
  obtain w2 where tb: "try_body tiny_config (wire failing_env) 1
                         (fst (startup tiny_config failing_env initial_world)) = (w2, Threw TypeError)"
    using failing_run wr
    by (cases "try_body tiny_config (wire failing_env) 1
                 (fst (startup tiny_config failing_env initial_world))") simp
  from runBenchmarks_bound [OF b tb] run have settles: "r \<noteq> NeverSettles" by simp
  from server_closed_on_every_exit [OF run settles] b run failing_run show ?thesis by simp
qed

text \<open>
  C6. When the server is up and the body of the \<open>try\<close> throws, which it does only
  when a scenario throws, the console of the whole run holds no line of the summary
  table, and holds the line of the \<open>catch\<close> block with the error.
\<close>

theorem no_partial_summary:
  assumes "startup cfg e initial_world = (w1, Returned port)"
    and "snd (try_body cfg (wire e) port w1) = Threw err"
  shows "filter is_summary (console (fst (main cfg e))) = []
       \<and> BenchmarkError err \<in> set (console (fst (main cfg e)))"
proof -
  from assms(1) have b: "bound_port e = Some port" and w1: "w1 = fst (startup cfg e initial_world)"
    by (simp_all add: startup_Returned)
  obtain w2 where tb: "try_body cfg (wire e) port w1 = (w2, Threw err)"
    using assms(2) by (cases "try_body cfg (wire e) port w1") simp
  then have "run_scenarios cfg (wire e) port scenarios [] w1 = (w2, Threw err)"
    by (rule try_body_Threw)
  then have "filter is_summary (console w2) = filter is_summary (console w1)"
    using run_scenarios_summary [of cfg "wire e" port scenarios "[]" w1] by simp
  also have "\<dots> = filter is_summary (console initial_world)"
    using startup_console [of cfg e initial_world] w1 by simp
  finally have quiet: "filter is_summary (console w2) = []" by (simp add: initial_world_def)
  from main_bound [OF b tb [unfolded w1]] quiet show ?thesis by (simp add: say_def)
qed

theorem no_partial_summary_witness:
  "filter is_summary (console (fst (main tiny_config failing_env))) = []
   \<and> BenchmarkError TypeError \<in> set (console (fst (main tiny_config failing_env)))"
proof -
  have s: "startup tiny_config failing_env initial_world
             = (fst (startup tiny_config failing_env initial_world), Returned 1)"
    by (simp add: startup_Returned failing_env_def)
  have t: "snd (try_body tiny_config (wire failing_env) 1
                  (fst (startup tiny_config failing_env initial_world))) = Threw TypeError"
    using failing_run by (simp add: failing_env_def)
  from no_partial_summary [OF s t] show ?thesis .
qed

text \<open>
  C2, as stated, fails: on the network that fails every request from the fourth on,
  the second scenario throws out of the scenario runs, and the process exits with
  status 0.
\<close>

theorem exit_status_counterexample:
  "snd (run_scenarios tiny_config (wire failing_env) 1 scenarios []
          (fst (startup tiny_config failing_env initial_world))) = Threw TypeError
   \<and> snd (main tiny_config failing_env) = Some 0"
proof -
  have b: "bound_port failing_env = Some 1" and wr: "wire failing_env = failing_net"
    by (simp_all add: failing_env_def)
  obtain w2 where tb: "try_body tiny_config (wire failing_env) 1
                         (fst (startup tiny_config failing_env initial_world)) = (w2, Threw TypeError)"
    using failing_run wr
    by (cases "try_body tiny_config (wire failing_env) 1
                 (fst (startup tiny_config failing_env initial_world))") simp
  from try_body_Threw [OF tb] main_bound [OF b tb] show ?thesis by simp
qed

text \<open>
  C2, amended. The process exits with status 1 when the server cannot be bound (the
  error is thrown before the \<open>try\<close> and rejects the promise of \<open>runBenchmarks\<close>).
  When the server is bound, the exit status is 0 whether the body of the \<open>try\<close>
  returns or throws, and the process does not exit when the body never settles.
\<close>

theorem exit_status:
  "(bound_port e = None \<longrightarrow> snd (main cfg e) = Some 1)
   \<and> (bound_port e = Some port \<longrightarrow>
        snd (main cfg e) =
          (case snd (try_body cfg (wire e) port (fst (startup cfg e initial_world))) of
             NeverSettles \<Rightarrow> None
           | Threw err \<Rightarrow> Some 0
           | Returned u \<Rightarrow> Some 0))"
proof (intro conjI impI)
  assume "bound_port e = None"
  then show "snd (main cfg e) = Some 1" by (rule main_unbound)
next
  assume b: "bound_port e = Some port"
  obtain w2 r2 where tb: "try_body cfg (wire e) port (fst (startup cfg e initial_world)) = (w2, r2)"
    by (cases "try_body cfg (wire e) port (fst (startup cfg e initial_world))")
  from main_bound [OF b tb] tb
  show "snd (main cfg e) =
          (case snd (try_body cfg (wire e) port (fst (startup cfg e initial_world))) of
             NeverSettles \<Rightarrow> None
           | Threw err \<Rightarrow> Some 0
           | Returned u \<Rightarrow> Some 0)"
    by (cases r2) simp_all
qed

theorem exit_status_witness:
  "snd (main tiny_config unbound_env) = Some 1 \<and> snd (main tiny_config failing_env) = Some 0"
proof -
  have u: "bound_port unbound_env = None" by (simp add: unbound_env_def)
  have b: "bound_port failing_env = Some 1" and wr: "wire failing_env = failing_net"
    by (simp_all add: failing_env_def)
  from exit_status [where e = unbound_env and cfg = tiny_config] u
  have "snd (main tiny_config unbound_env) = Some 1" by simp
  moreover from exit_status [where e = failing_env and port = 1 and cfg = tiny_config] b failing_run wr
  have "snd (main tiny_config failing_env) = Some 0" by simp
  ultimately show ?thesis ..
qed

text \<open>
  C5: what the code does when no request succeeded. The statistics of the empty list
  are \<open>NaN\<close> for the mean, computed as \<open>0 / 0\<close>, and \<open>undefined\<close> for the other five;
  \<open>min.toFixed(2)\<close> of line 167 then throws, so no result is returned. The last
  conjunct is a run of \<open>benchmarkRoute\<close> on a network that fails every request.
\<close>

theorem empty_statistics_throw:
  "calculate_statistics [] =
     \<lparr>avg = NaN, min_t = Undefined, max_t = Undefined,
      p50 = Undefined, p95 = Undefined, p99 = Undefined\<rparr>
   \<and> snd (report nm cnt tot [] errs w) = Threw TypeError
   \<and> snd (benchmarkRoute tiny_config dead_net 1 ''/simple'' ''Simple Route'' 2 initial_world)
       = Threw TypeError"
proof -
  have fm: "floor_mul 0 m = 0" for m by (simp add: floor_mul_def round53_def)
  have st: "calculate_statistics [] =
     \<lparr>avg = NaN, min_t = Undefined, max_t = Undefined,
      p50 = Undefined, p95 = Undefined, p99 = Undefined\<rparr>"
    by (simp add: calculate_statistics_def js_div_def js_index_def fm)
  have "snd (report nm cnt tot [] errs w) = Threw TypeError"
    by (simp add: report_def st Let_def toFixed3_def toFixed_def)
  moreover
  have "snd (benchmarkRoute tiny_config dead_net 1 ''/simple'' ''Simple Route'' 2 initial_world)
          = Threw TypeError"
    by code_simp
  ultimately show ?thesis using st by simp
qed

subsection \<open>One batch, in closed form\<close>

lemma run_batch_eq:
  "run_batch net port path b n acc w =
     (let ids = [issued w ..< issued w + n];
          w2 = w\<lparr>issued := issued w + n,
                 trace := trace w @ batch_events net port path b (issued w) n\<rparr>
      in if \<exists>k \<in> set ids. makeRequest net port path k = Pending then (w2, NeverSettles)
         else (w2\<lparr>now := now w + foldr max (map (\<lambda>k. elapsed (net port path k)) ids) 0\<rparr>,
               Returned (foldl (\<lambda>a k. on_settled (makeRequest net port path k) a) acc
                          (sort_key (\<lambda>k. elapsed (net port path k)) ids))))"
proof (cases "\<exists>k \<in> set [issued w ..< issued w + n]. makeRequest net port path k = Pending")
  case True
  then show ?thesis
    by (simp add: run_batch_def Let_def promise_all_chained batch_events_def)
next
  case False
  then have "filter (\<lambda>k. makeRequest net port path k \<noteq> Pending) [issued w ..< issued w + n]
               = [issued w ..< issued w + n]"
    by (simp only: filter_id_conv) blast
  with False show ?thesis
    by (simp add: run_batch_def Let_def promise_all_chained batch_events_def)
qed

subsection \<open>The trace of the batch loop\<close>


subsection \<open>What every such trace satisfies\<close>





















subsection \<open>The batches of the measurement\<close>

lemma new_events_append: "trace w' = trace w @ es \<Longrightarrow> new_events w w' = es"
  by (simp add: new_events_def)




subsection \<open>One outcome per request\<close>








subsection \<open>The trace of the warmup\<close>

lemma warmup_trace:
  "warmup net port path n w = (w', r) \<Longrightarrow>
   \<exists>j \<le> n. trace w' = trace w
                 @ concat (map (\<lambda>k. [Issue Warmup k, Settle k]) [issued w ..< issued w + j])
                 @ (if r = NeverSettles then [Issue Warmup (issued w + j)] else [])
     \<and> (r = Returned () \<longrightarrow> j = n) \<and> (\<forall>e. r \<noteq> Threw e)"
proof (induction n arbitrary: w)
  case 0
  then show ?case by auto
next
  case (Suc n)
  let ?k = "issued w"
  show ?case
  proof (cases "makeRequest net port path ?k = Pending")
    case True
    with Suc.prems have "trace w' = trace w @ [Issue Warmup ?k]" and "r = NeverSettles"
      by (auto simp: Let_def)
    then show ?thesis by (intro exI [of _ 0]) simp
  next
    case False
    define w2 where "w2 = w\<lparr>issued := Suc ?k, trace := trace w @ [Issue Warmup ?k],
                            now := now w + elapsed (net port path ?k),
                            trace := trace w @ [Issue Warmup ?k] @ [Settle ?k]\<rparr>"
    from False Suc.prems have "warmup net port path n w2 = (w', r)"
      by (cases "makeRequest net port path ?k") (simp_all add: Let_def w2_def)
    from Suc.IH [OF this] obtain j
      where j: "j \<le> n"
        and tr: "trace w' = trace w2
                   @ concat (map (\<lambda>k. [Issue Warmup k, Settle k]) [issued w2 ..< issued w2 + j])
                   @ (if r = NeverSettles then [Issue Warmup (issued w2 + j)] else [])"
        and rest: "(r = Returned () \<longrightarrow> j = n) \<and> (\<forall>e. r \<noteq> Threw e)"
      by blast
    have k2: "issued w2 = Suc ?k" and t2: "trace w2 = trace w @ [Issue Warmup ?k, Settle ?k]"
      by (simp_all add: w2_def)
    have "[?k ..< ?k + Suc j] = ?k # [Suc ?k ..< Suc ?k + j]"
      by (simp add: upt_conv_Cons)
    with tr k2 t2
    have "trace w' = trace w
            @ concat (map (\<lambda>k. [Issue Warmup k, Settle k]) [?k ..< ?k + Suc j])
            @ (if r = NeverSettles then [Issue Warmup (?k + Suc j)] else [])"
      by simp
    with j rest show ?thesis by (intro exI [of _ "Suc j"]) simp
  qed
qed

lemma one_at_a_time:
  assumes "tail = [] \<or> tail = [Issue ph x]"
  shows "0 \<le> active (take m (concat (map (\<lambda>k. [Issue Warmup k, Settle k]) ks) @ tail))
       \<and> active (take m (concat (map (\<lambda>k. [Issue Warmup k, Settle k]) ks) @ tail)) \<le> 1"
proof (induction ks arbitrary: m)
  case Nil
  from assms show ?case by (cases m) auto
next
  case (Cons k ks)
  show ?case
  proof (cases m)
    case 0
    then show ?thesis by simp
  next
    case (Suc m1)
    show ?thesis
    proof (cases m1)
      case 0
      with Suc show ?thesis by simp
    next
      case (Suc m2)
      with \<open>m = Suc m1\<close> Cons.IH [of m2] show ?thesis by simp
    qed
  qed
qed

lemma all_issued_pairs:
  "all_issued (concat (map (\<lambda>k. [Issue ph k, Settle k]) ks)) = ks"
  by (induction ks) simp_all

lemma warmup_Returned:
  "\<forall>k \<in> {issued w ..< issued w + n}. makeRequest net port path k \<noteq> Pending \<Longrightarrow>
   \<exists>w'. warmup net port path n w = (w', Returned ())
        \<and> issued w' = issued w + n \<and> console w' = console w \<and> server w' = server w"
proof (induction n arbitrary: w)
  case 0
  show ?case by simp
next
  case (Suc n)
  let ?k = "issued w"
  define w2 where "w2 = w\<lparr>issued := Suc ?k, trace := trace w @ [Issue Warmup ?k],
                          now := now w + elapsed (net port path ?k),
                          trace := trace w @ [Issue Warmup ?k] @ [Settle ?k]\<rparr>"
  from Suc.prems have here: "makeRequest net port path ?k \<noteq> Pending" by simp
  then have step: "warmup net port path (Suc n) w = warmup net port path n w2"
    by (cases "makeRequest net port path ?k") (simp_all add: Let_def w2_def)
  have "\<forall>k \<in> {issued w2 ..< issued w2 + n}. makeRequest net port path k \<noteq> Pending"
    using Suc.prems by (simp add: w2_def)
  from Suc.IH [OF this] obtain w'
    where "warmup net port path n w2 = (w', Returned ())"
      and "issued w' = issued w2 + n" and "console w' = console w2" and "server w' = server w2"
    by blast
  with step show ?case by (simp add: w2_def)
qed

subsection \<open>The measurement does not depend on what came before\<close>

lemma insort_key_cong:
  "f x = g x \<Longrightarrow> \<forall>y \<in> set ys. f y = g y \<Longrightarrow> insort_key f x ys = insort_key g x ys"
  by (induction ys) simp_all

lemma sort_key_cong:
  "\<forall>x \<in> set xs. f x = g x \<Longrightarrow> sort_key f xs = sort_key g xs"
proof (induction xs)
  case Nil
  show ?case by simp
next
  case (Cons x xs)
  then have tl: "sort_key f xs = sort_key g xs" by simp
  have "insort_key f x (sort_key g xs) = insort_key g x (sort_key g xs)"
    using Cons.prems by (intro insort_key_cong) simp_all
  with tl show ?case by simp
qed

lemma foldl_cong_on:
  "\<forall>x \<in> set xs. f x = g x \<Longrightarrow> foldl (\<lambda>a k. h (f k) a) acc xs = foldl (\<lambda>a k. h (g k) a) acc xs"
  by (induction xs arbitrary: acc) simp_all

lemma run_batch_agree:
  assumes "issued w = issued v"
    and "\<forall>k \<ge> issued w. net port path k = net' port path k"
  shows "snd (run_batch net port path b n acc w) = snd (run_batch net' port path b n acc v)
       \<and> issued (fst (run_batch net port path b n acc w))
           = issued (fst (run_batch net' port path b n acc v))
       \<and> now (fst (run_batch net port path b n acc w)) - now w
           = now (fst (run_batch net' port path b n acc v)) - now v"
proof -
  define ids where "ids = [issued w ..< issued w + n]"
  have ids_v: "[issued v ..< issued v + n] = ids" using assms(1) by (simp add: ids_def)
  have same: "\<forall>k \<in> set ids. net port path k = net' port path k"
    using assms(2) by (simp add: ids_def)
  then have req: "\<forall>k \<in> set ids. makeRequest net port path k = makeRequest net' port path k"
    by (simp add: makeRequest_def)
  from same have el: "\<forall>k \<in> set ids. elapsed (net port path k) = elapsed (net' port path k)"
    by simp
  have srt: "sort_key (\<lambda>k. elapsed (net port path k)) ids
               = sort_key (\<lambda>k. elapsed (net' port path k)) ids"
    using el by (rule sort_key_cong)
  have "foldl (\<lambda>a k. on_settled (makeRequest net port path k) a) acc
               (sort_key (\<lambda>k. elapsed (net' port path k)) ids)
           = foldl (\<lambda>a k. on_settled (makeRequest net' port path k) a) acc
               (sort_key (\<lambda>k. elapsed (net' port path k)) ids)"
    using req
      foldl_cong_on [where f = "makeRequest net port path" and g = "makeRequest net' port path"
                       and h = on_settled and acc = acc
                       and xs = "sort_key (\<lambda>k. elapsed (net' port path k)) ids"]
    by simp
  with srt
  have fld: "foldl (\<lambda>a k. on_settled (makeRequest net port path k) a) acc
               (sort_key (\<lambda>k. elapsed (net port path k)) ids)
           = foldl (\<lambda>a k. on_settled (makeRequest net' port path k) a) acc
               (sort_key (\<lambda>k. elapsed (net' port path k)) ids)"
    by simp
  have mx: "foldr max (map (\<lambda>k. elapsed (net port path k)) ids) 0
              = foldr max (map (\<lambda>k. elapsed (net' port path k)) ids) 0"
    using el by (simp cong: map_cong)
  show ?thesis
  proof (cases "\<exists>k \<in> set ids. makeRequest net port path k = Pending")
    case True
    with req have True': "\<exists>k \<in> set ids. makeRequest net' port path k = Pending" by auto
    from True have "snd (run_batch net port path b n acc w) = NeverSettles"
      and "issued (fst (run_batch net port path b n acc w)) = issued w + n"
      and "now (fst (run_batch net port path b n acc w)) = now w"
      unfolding run_batch_eq Let_def ids_def [symmetric] by simp_all
    moreover from True' have "snd (run_batch net' port path b n acc v) = NeverSettles"
      and "issued (fst (run_batch net' port path b n acc v)) = issued v + n"
      and "now (fst (run_batch net' port path b n acc v)) = now v"
      unfolding run_batch_eq Let_def ids_v by simp_all
    ultimately show ?thesis using assms(1) by simp
  next
    case False
    with req have False': "\<not> (\<exists>k \<in> set ids. makeRequest net' port path k = Pending)" by auto
    from False
    have "snd (run_batch net port path b n acc w)
            = Returned (foldl (\<lambda>a k. on_settled (makeRequest net port path k) a) acc
                         (sort_key (\<lambda>k. elapsed (net port path k)) ids))"
      and "issued (fst (run_batch net port path b n acc w)) = issued w + n"
      and "now (fst (run_batch net port path b n acc w))
             = now w + foldr max (map (\<lambda>k. elapsed (net port path k)) ids) 0"
      unfolding run_batch_eq Let_def ids_def [symmetric] by simp_all
    moreover from False'
    have "snd (run_batch net' port path b n acc v)
            = Returned (foldl (\<lambda>a k. on_settled (makeRequest net' port path k) a) acc
                         (sort_key (\<lambda>k. elapsed (net' port path k)) ids))"
      and "issued (fst (run_batch net' port path b n acc v)) = issued v + n"
      and "now (fst (run_batch net' port path b n acc v))
             = now v + foldr max (map (\<lambda>k. elapsed (net' port path k)) ids) 0"
      unfolding run_batch_eq Let_def ids_v by simp_all
    ultimately show ?thesis using assms(1) fld mx by simp
  qed
qed

lemma batch_loop_agree:
  "issued w = issued v \<Longrightarrow> \<forall>k \<ge> issued w. net port path k = net' port path k \<Longrightarrow>
   snd (batch_loop net port path cnt batchSize batches batch acc w)
     = snd (batch_loop net' port path cnt batchSize batches batch acc v)
   \<and> now (fst (batch_loop net port path cnt batchSize batches batch acc w)) - now w
     = now (fst (batch_loop net' port path cnt batchSize batches batch acc v)) - now v"
proof (induction net port path cnt batchSize batches batch acc w arbitrary: v
       rule: batch_loop.induct)
  case (1 net port path cnt batchSize batches batch acc w)
  let ?n = "min batchSize (cnt - batch * batchSize)"
  show ?case
  proof (cases "batch < batches")
    case False
    then have "batch_loop net port path cnt batchSize batches batch acc w = (w, Returned acc)"
      and "batch_loop net' port path cnt batchSize batches batch acc v = (v, Returned acc)"
      by (subst batch_loop.simps, simp)+
    then show ?thesis by simp
  next
    case True
    obtain w1 r1 where rb: "run_batch net port path batch ?n acc w = (w1, r1)"
      by (cases "run_batch net port path batch ?n acc w")
    obtain v1 q1 where rb': "run_batch net' port path batch ?n acc v = (v1, q1)"
      by (cases "run_batch net' port path batch ?n acc v")
    from run_batch_agree [where net = net and net' = net' and port = port and path = path
                               and b = batch and n = ?n and acc = acc, OF "1.prems"] rb rb'
    have same: "q1 = r1" and iss: "issued w1 = issued v1"
      and tm: "now w1 - now w = now v1 - now v"
      by simp_all
    note rb' = rb' [unfolded same]
    show ?thesis
    proof (cases r1)
      case (Returned acc1)
      have "issued w \<le> issued w1" using rb by (auto simp: run_batch_eq Let_def split: if_splits)
      with "1.prems"(2) have later: "\<forall>k \<ge> issued w1. net port path k = net' port path k" by simp
      have L: "batch_loop net port path cnt batchSize batches batch acc w
                 = batch_loop net port path cnt batchSize batches (Suc batch) acc1 w1"
        using True rb Returned by (subst batch_loop.simps) simp
      have R: "batch_loop net' port path cnt batchSize batches batch acc v
                 = batch_loop net' port path cnt batchSize batches (Suc batch) acc1 v1"
        using True rb' Returned by (subst batch_loop.simps) simp
      from "1.IH" [where v = v1, OF True rb [symmetric] Returned iss later] tm
      show ?thesis unfolding L R by linarith
    next
      case (Threw e)
      have L: "batch_loop net port path cnt batchSize batches batch acc w = (w1, Threw e)"
        using True rb Threw by (subst batch_loop.simps) simp
      have R: "batch_loop net' port path cnt batchSize batches batch acc v = (v1, Threw e)"
        using True rb' Threw by (subst batch_loop.simps) simp
      from tm show ?thesis unfolding L R by simp
    next
      case NeverSettles
      have L: "batch_loop net port path cnt batchSize batches batch acc w = (w1, NeverSettles)"
        using True rb NeverSettles by (subst batch_loop.simps) simp
      have R: "batch_loop net' port path cnt batchSize batches batch acc v = (v1, NeverSettles)"
        using True rb' NeverSettles by (subst batch_loop.simps) simp
      from tm show ?thesis unfolding L R by simp
    qed
  qed
qed

lemma measure_batches_agree:
  "issued w = issued v \<Longrightarrow> \<forall>k \<ge> issued w. net port path k = net' port path k \<Longrightarrow>
   snd (measure_batches net port path cnt batchSize w)
     = snd (measure_batches net' port path cnt batchSize v)
   \<and> now (fst (measure_batches net port path cnt batchSize w)) - now w
     = now (fst (measure_batches net' port path cnt batchSize v)) - now v"
  using batch_loop_agree [where w = w and v = v and net = net and net' = net' and port = port
                            and path = path and acc = "([], 0)" and batch = 0
                            and cnt = cnt and batchSize = batchSize]
  by (simp add: measure_batches_def split: option.splits)

lemma report_snd: "snd (report nm cnt tot ts errs w) = snd (report nm cnt tot ts errs v)"
  by (simp add: report_def Let_def split: sum.splits prod.splits)

text \<open>
  C9. The warmup keeps between 0 and 1 requests in flight at every moment. When
  every warmup request settles, it returns after issuing exactly \<open>WARMUP_REQUESTS\<close>
  requests, each settled before the next is issued. What these requests answer has no
  effect on what is measured: on two networks that differ only in the warmup requests,
  the total time, the latencies and the error count handed to the statistics are the
  same, and so is the outcome of \<open>benchmarkRoute\<close>.
\<close>

theorem warmup_sequential_and_discarded:
  assumes "\<forall>k. k < issued w \<or> issued w + WARMUP_REQUESTS cfg \<le> k \<longrightarrow>
                net port path k = net' port path k"
    and "\<forall>k. issued w \<le> k \<and> k < issued w + WARMUP_REQUESTS cfg \<longrightarrow>
               callbacks (net port path k) \<noteq> [] \<and> callbacks (net' port path k) \<noteq> []"
  shows "(\<forall>m. 0 \<le> active (take m (new_events w (fst (warmup net port path (WARMUP_REQUESTS cfg) w))))
              \<and> active (take m (new_events w (fst (warmup net port path (WARMUP_REQUESTS cfg) w)))) \<le> 1)
       \<and> snd (warmup net port path (WARMUP_REQUESTS cfg) w) = Returned ()
       \<and> new_events w (fst (warmup net port path (WARMUP_REQUESTS cfg) w))
           = concat (map (\<lambda>k. [Issue Warmup k, Settle k])
                       [issued w ..< issued w + WARMUP_REQUESTS cfg])
       \<and> snd (collect cfg net port path nm cnt w) = snd (collect cfg net' port path nm cnt w)
       \<and> snd (benchmarkRoute cfg net port path nm cnt w)
           = snd (benchmarkRoute cfg net' port path nm cnt w)"
proof -
  define W where "W = WARMUP_REQUESTS cfg"
  define w0 where "w0 = say [BenchmarkingLine nm, WarmupLine W] w"
  have i0: "issued w0 = issued w" by (simp add: w0_def say_def)
  have s1: "\<forall>k \<in> {issued w ..< issued w + W}. makeRequest net port path k \<noteq> Pending"
    using assms(2) by (simp add: makeRequest_Pending_iff W_def)
  have s2: "\<forall>k \<in> {issued w ..< issued w + W}. makeRequest net' port path k \<noteq> Pending"
    using assms(2) by (simp add: makeRequest_Pending_iff W_def)
  \<comment> \<open>the trace of the warmup\<close>
  obtain wa ra where wu: "warmup net port path W w = (wa, ra)"
    by (cases "warmup net port path W w")
  from warmup_trace [OF wu] obtain j
    where tr: "trace wa = trace w
                 @ concat (map (\<lambda>k. [Issue Warmup k, Settle k]) [issued w ..< issued w + j])
                 @ (if ra = NeverSettles then [Issue Warmup (issued w + j)] else [])"
      and jn: "ra = Returned () \<longrightarrow> j = W"
    by blast
  have ev: "new_events w wa
              = concat (map (\<lambda>k. [Issue Warmup k, Settle k]) [issued w ..< issued w + j])
                @ (if ra = NeverSettles then [Issue Warmup (issued w + j)] else [])"
    using tr by (rule new_events_append)
  have seq: "\<forall>m. 0 \<le> active (take m (new_events w wa)) \<and> active (take m (new_events w wa)) \<le> 1"
  proof
    fix m
    have "(if ra = NeverSettles then [Issue Warmup (issued w + j)] else []) = []
            \<or> (if ra = NeverSettles then [Issue Warmup (issued w + j)] else [])
                = [Issue Warmup (issued w + j)]"
      by simp
    from one_at_a_time [OF this, of m "[issued w ..< issued w + j]"]
    show "0 \<le> active (take m (new_events w wa)) \<and> active (take m (new_events w wa)) \<le> 1"
      unfolding ev .
  qed
  from warmup_Returned [OF s1] wu have ra: "ra = Returned ()" by auto
  with jn ev have shape: "new_events w wa
              = concat (map (\<lambda>k. [Issue Warmup k, Settle k]) [issued w ..< issued w + W])"
    by simp
  \<comment> \<open>the measurement after either warmup\<close>
  from warmup_Returned [of w0 W net port path] s1 i0 obtain w1
    where a1: "warmup net port path W w0 = (w1, Returned ())" and a2: "issued w1 = issued w + W"
    by auto
  from warmup_Returned [of w0 W net' port path] s2 i0 obtain v1
    where b1: "warmup net' port path W w0 = (v1, Returned ())" and b2: "issued v1 = issued w + W"
    by auto
  define w2 where "w2 = say [RunningLine cnt] w1"
  define v2 where "v2 = say [RunningLine cnt] v1"
  have same_issued: "issued w2 = issued v2" by (simp add: w2_def v2_def say_def a2 b2)
  have later: "\<forall>k \<ge> issued w2. net port path k = net' port path k"
    using assms(1) by (simp add: w2_def say_def a2 W_def)
  let ?M = "measure_batches net port path cnt (CONCURRENT_REQUESTS cfg) w2"
  let ?M' = "measure_batches net' port path cnt (CONCURRENT_REQUESTS cfg) v2"
  from measure_batches_agree [where w = w2 and v = v2 and net = net and net' = net' and port = port
                                and path = path, OF same_issued later]
  have res: "snd ?M = snd ?M'" and tm: "now (fst ?M) - now w2 = now (fst ?M') - now v2"
    by simp_all
  have c1: "collect cfg net port path nm cnt w =
              (case ?M of
                 (w3, Returned (tms, errs)) \<Rightarrow> (w3, Returned (now w3 - now w2, tms, errs))
               | (w3, Threw e) \<Rightarrow> (w3, Threw e)
               | (w3, NeverSettles) \<Rightarrow> (w3, NeverSettles))"
    using a1 [unfolded w0_def W_def] unfolding w2_def by (simp add: collect_def Let_def)
  have c2: "collect cfg net' port path nm cnt w =
              (case ?M' of
                 (w3, Returned (tms, errs)) \<Rightarrow> (w3, Returned (now w3 - now v2, tms, errs))
               | (w3, Threw e) \<Rightarrow> (w3, Threw e)
               | (w3, NeverSettles) \<Rightarrow> (w3, NeverSettles))"
    using b1 [unfolded w0_def W_def] unfolding v2_def by (simp add: collect_def Let_def)
  have coll: "snd (collect cfg net port path nm cnt w) = snd (collect cfg net' port path nm cnt w)"
    unfolding c1 c2 using res tm
    by (cases ?M; cases ?M') (auto split: completion.splits)
  have bench: "snd (benchmarkRoute cfg net port path nm cnt w)
                 = snd (benchmarkRoute cfg net' port path nm cnt w)"
  proof -
    obtain x rx where x: "collect cfg net port path nm cnt w = (x, rx)"
      by (cases "collect cfg net port path nm cnt w")
    obtain y ry where y: "collect cfg net' port path nm cnt w = (y, ry)"
      by (cases "collect cfg net' port path nm cnt w")
    from coll x y have "rx = ry" by simp
    with x y show ?thesis
      by (cases rx) (auto simp: benchmarkRoute_def report_snd [of _ _ _ _ _ x y])
  qed
  from seq ra shape coll bench wu show ?thesis
    unfolding W_def [symmetric] by simp
qed

theorem warmup_sequential_and_discarded_witness:
  "snd (warmup demo_net 1 ''/simple'' (WARMUP_REQUESTS tiny_config) initial_world) = Returned ()
   \<and> new_events initial_world
        (fst (warmup demo_net 1 ''/simple'' (WARMUP_REQUESTS tiny_config) initial_world))
       = [Issue Warmup 0, Settle 0]
   \<and> snd (benchmarkRoute tiny_config demo_net 1 ''/simple'' ''Simple Route'' 2 initial_world)
       = snd (benchmarkRoute tiny_config detour_net 1 ''/simple'' ''Simple Route'' 2 initial_world)"
proof -
  have agree: "\<forall>k. k < issued initial_world \<or> issued initial_world + WARMUP_REQUESTS tiny_config \<le> k
                 \<longrightarrow> demo_net 1 ''/simple'' k = detour_net 1 ''/simple'' k"
    by (simp add: detour_net_def initial_world_def tiny_config_def)
  have settle: "\<forall>k. issued initial_world \<le> k \<and> k < issued initial_world + WARMUP_REQUESTS tiny_config
                 \<longrightarrow> callbacks (demo_net 1 ''/simple'' k) \<noteq> []
                     \<and> callbacks (detour_net 1 ''/simple'' k) \<noteq> []"
    by (simp add: detour_net_def demo_net_def initial_world_def tiny_config_def)
  from warmup_sequential_and_discarded
         [where w = initial_world and cfg = tiny_config and net = demo_net and net' = detour_net
            and port = 1 and path = "''/simple''" and nm = "''Simple Route''" and cnt = 2,
          OF agree settle]
  show ?thesis by (simp add: initial_world_def tiny_config_def)
qed

end
